theory Spec2Isabelle
  imports Main
begin

section \<open>The customers table\<close>

text \<open>
  The table is the one declared by \<^verbatim>\<open>setup_database_schema\<close> (database.py, lines 49-57):
  \<^verbatim>\<open>
  CREATE TABLE IF NOT EXISTS customers (
      id SERIAL PRIMARY KEY,
      email TEXT UNIQUE NOT NULL,
      full_name TEXT NOT NULL,
      bio TEXT NOT NULL,
      created_at TIMESTAMP WITH TIME ZONE DEFAULT NOW()
  );
  \<close>
  A row carries the five columns. The three text columns are NOT NULL and are Python
  \<open>str\<close> arguments in every caller, so they are strings; \<open>id\<close> (optional in models.py,
  \<open>id: Optional[str] = None\<close>) and \<open>created_at\<close> (no NOT NULL in the declaration) are
  optional, \<open>None\<close> standing for SQL NULL. Timestamps are ticks of the store's clock.
\<close>

record customer =
  cust_id :: "nat option"
  email :: string
  full_name :: string
  bio :: string
  created_at :: "nat option"

text \<open>
  The store holds the rows in insertion order and the sequence behind the SERIAL column
  (\<open>id_seq\<close> is the value the next insert draws).
\<close>

record store =
  rows :: "customer list"
  id_seq :: nat

definition empty_store :: store where
  "empty_store = \<lparr>rows = [], id_seq = 1\<rparr>"

text \<open>
  The errors the store raises through its client. The two constraints of the declaration
  that an insert of three strings can violate are the primary key and the UNIQUE on email;
  the constraint's name is carried along.
\<close>

datatype store_error = Unique_violation string

text \<open>
  \<open>INSERT INTO customers (email, full_name, bio) VALUES (...)\<close>: the two columns left out
  take their defaults, the next value of the sequence and \<open>NOW()\<close>. The sequence advances
  whether or not the row is accepted. The primary key is checked before the UNIQUE
  constraint on email.
\<close>

definition insert_row ::
  "store \<Rightarrow> nat \<Rightarrow> string \<times> string \<times> string \<Rightarrow> (store_error + customer) \<times> store" where
  "insert_row s now v =
     (case v of (e, n, b) \<Rightarrow>
        let i = id_seq s;
            s1 = s\<lparr>id_seq := i + 1\<rparr>;
            r = \<lparr>cust_id = Some i, email = e, full_name = n, bio = b, created_at = Some now\<rparr>
        in if Some i \<in> set (map cust_id (rows s)) then (Inl (Unique_violation ''customers_pkey''), s1)
           else if e \<in> set (map email (rows s)) then (Inl (Unique_violation ''customers_email_key''), s1)
           else (Inr r, s1\<lparr>rows := rows s @ [r]\<rparr>))"

text \<open>\<open>SELECT * FROM customers WHERE email = e\<close>.\<close>

definition select_eq_email :: "store \<Rightarrow> string \<Rightarrow> customer list" where
  "select_eq_email s e = filter (\<lambda>r. email r = e) (rows s)"

text \<open>
  \<open>UPDATE customers SET full_name = n, bio = b WHERE email = e\<close>, returning the rows as
  updated.
\<close>

definition set_name_bio :: "string \<Rightarrow> string \<Rightarrow> customer \<Rightarrow> customer" where
  "set_name_bio n b r = r\<lparr>full_name := n, bio := b\<rparr>"

definition update_eq_email :: "store \<Rightarrow> string \<Rightarrow> string \<Rightarrow> string \<Rightarrow> customer list \<times> store" where
  "update_eq_email s e n b =
     (map (set_name_bio n b) (filter (\<lambda>r. email r = e) (rows s)),
      s\<lparr>rows := map (\<lambda>r. if email r = e then set_name_bio n b r else r) (rows s)\<rparr>)"

text \<open>\<open>DELETE FROM customers WHERE email = e\<close>, returning the rows deleted.\<close>

definition delete_eq_email :: "store \<Rightarrow> string \<Rightarrow> customer list \<times> store" where
  "delete_eq_email s e =
     (filter (\<lambda>r. email r = e) (rows s),
      s\<lparr>rows := filter (\<lambda>r. email r \<noteq> e) (rows s)\<rparr>)"

text \<open>
  The states the program can reach: ids and emails are unique, no id is NULL, and every
  id in the table was drawn from the sequence.
\<close>

definition wf_store :: "store \<Rightarrow> bool" where
  "wf_store s \<longleftrightarrow>
     distinct (map email (rows s)) \<and> distinct (map cust_id (rows s)) \<and>
     (\<forall>r \<in> set (rows s). case cust_id r of None \<Rightarrow> False | Some i \<Rightarrow> i < id_seq s)"

section \<open>The four tools (DB\_agent/tools)\<close>

text \<open>
  Each tool is one call of the store client on the table \<open>customers\<close> and returns the
  client's response (the list of rows in \<open>response.data\<close>); an error of the store is
  raised by the client and leaves the tool as it is. The store the client talks to is passed
  in and returned; \<open>now\<close> is the store's clock at the call.
\<close>

type_synonym response = "store_error + customer list"

definition create_customer ::
  "store \<Rightarrow> nat \<Rightarrow> string \<Rightarrow> string \<Rightarrow> string \<Rightarrow> response \<times> store" where
  "create_customer s now e n b =
     (case insert_row s now (e, n, b) of
        (Inl err, s') \<Rightarrow> (Inl err, s')
      | (Inr r, s') \<Rightarrow> (Inr [r], s'))"

definition get_customer_by_email :: "store \<Rightarrow> string \<Rightarrow> response \<times> store" where
  "get_customer_by_email s e = (Inr (select_eq_email s e), s)"

definition update_customer_by_email ::
  "store \<Rightarrow> string \<Rightarrow> string \<Rightarrow> string \<Rightarrow> response \<times> store" where
  "update_customer_by_email s e n b =
     (case update_eq_email s e n b of (rs, s') \<Rightarrow> (Inr rs, s'))"

definition delete_customer_by_email :: "store \<Rightarrow> string \<Rightarrow> response \<times> store" where
  "delete_customer_by_email s e =
     (case delete_eq_email s e of (rs, s') \<Rightarrow> (Inr rs, s'))"

section \<open>Connection and seeding (DB\_agent/database.py)\<close>

text \<open>
  The process environment is a dictionary from names to values. \<open>load_dotenv()\<close> adds
  the entries of the .env file for the names the environment does not have yet (it does not
  override); \<open>dotenv\<close> is the parsed content of that file, empty when there is none.
\<close>

type_synonym env = "string \<rightharpoonup> string"

definition load_dotenv :: "env \<Rightarrow> env \<Rightarrow> env" where
  "load_dotenv dotenv environ = dotenv ++ environ"

text \<open>The keyword arguments of \<open>psycopg2.connect\<close> (database.py, lines 22-28).\<close>

record conn_params =
  host :: string
  port :: string
  database :: string
  user :: string
  password :: "string option"

definition connect_kwargs :: "env \<Rightarrow> conn_params" where
  "connect_kwargs environ =
     \<lparr>host = ''localhost'',
      port = (case environ ''POSTGRES_PORT'' of None \<Rightarrow> ''5432'' | Some p \<Rightarrow> p),
      database = ''postgres'',
      user = ''postgres'',
      password = environ ''POSTGRES_PASSWORD''\<rparr>"

text \<open>
  \<open>get_database_connection\<close>: \<open>accepts\<close> says whether the server accepts a connection
  with the given arguments (\<open>psycopg2.connect\<close> raises otherwise, and the function prints
  the error and returns \<open>None\<close>). An open connection is represented by the arguments it
  was opened with.
\<close>

definition get_database_connection ::
  "(conn_params \<Rightarrow> bool) \<Rightarrow> env \<Rightarrow> env \<Rightarrow> conn_params option" where
  "get_database_connection accepts dotenv environ =
     (let kw = connect_kwargs (load_dotenv dotenv environ)
      in if accepts kw then Some kw else None)"

definition sample_customers :: "(string \<times> string \<times> string) list" where
  "sample_customers =
     [(''johndoe@gmail.com'', ''John Doe'', ''I am a software engineer''),
      (''janedoe@gmail.com'', ''Jane Doe'', ''I am a data scientist''),
      (''jimdoe@gmail.com'', ''Jim Doe'', ''I am a product manager'')]"

text \<open>
  \<open>cur.executemany\<close> runs the INSERT once per tuple and stops at the first error. All the
  statements are in one transaction, so \<open>NOW()\<close> is the same for each.
\<close>

fun executemany ::
  "store \<Rightarrow> nat \<Rightarrow> (string \<times> string \<times> string) list \<Rightarrow> store_error option \<times> store" where
  "executemany s now [] = (None, s)"
| "executemany s now (v # vs) =
     (case insert_row s now v of
        (Inl err, s') \<Rightarrow> (Some err, s')
      | (Inr r, s') \<Rightarrow> executemany s' now vs)"

text \<open>
  \<open>seed_database\<close> (database.py, lines 69-109). Without a connection it returns False.
  With rows in the table it returns True at once. Otherwise it inserts the samples and
  commits; an error is caught, False is returned, and closing the connection without a commit
  rolls the inserted rows back (values drawn from the sequence are not given back).
\<close>

definition seed_database ::
  "(conn_params \<Rightarrow> bool) \<Rightarrow> env \<Rightarrow> env \<Rightarrow> store \<Rightarrow> nat \<Rightarrow> bool \<times> store" where
  "seed_database accepts dotenv environ s now =
     (case get_database_connection accepts dotenv environ of
        None \<Rightarrow> (False, s)
      | Some conn \<Rightarrow>
          let count = length (rows s)
          in if count > 0 then (True, s)
             else (case executemany s now sample_customers of
                     (Some err, s') \<Rightarrow> (False, s\<lparr>id_seq := id_seq s'\<rparr>)
                   | (None, s') \<Rightarrow> (True, s')))"

section \<open>The OAuth helper (src/codescribe/oauth\_helper.py)\<close>

text \<open>
  A credential as the helper observes it: the access token, the refresh token, and what the
  auth library reports as \<open>expired\<close> and \<open>valid\<close>.
\<close>

record credentials =
  token :: string
  refresh_token :: "string option"
  expired :: bool
  valid :: bool

text \<open>Python's truth value of an optional string: \<open>None\<close> and the empty string are false.\<close>

fun truthy :: "string option \<Rightarrow> bool" where
  "truthy None = False"
| "truthy (Some t) = (t \<noteq> [])"

text \<open>
  What \<open>_save_credentials\<close> can meet: \<open>open(token_file, 'w')\<close> raises (the file is
  untouched), or the file is opened, which truncates it, and \<open>to_json\<close> or the write
  raises, or the write succeeds.
\<close>

datatype save_outcome = Save_ok | Open_raises | Write_raises

text \<open>
  The collaborators of the helper, each with its failure as \<open>None\<close> (the exception that
  the helper catches): parsing a token file, refreshing over the network, the client-secret
  file, the consent flow in the browser, serialising, and writing.
\<close>

record oauth_env =
  from_authorized_user_file :: "string \<Rightarrow> credentials option"
  refresh :: "credentials \<Rightarrow> credentials option"
  credentials_file_exists :: bool
  from_client_secrets_file_ok :: bool
  run_local_server :: "credentials option"
  to_json :: "credentials \<Rightarrow> string"
  write_outcome :: save_outcome

text \<open>What the helper does to the world, in order.\<close>

datatype oauth_event =
    Token_file_read
  | Refresh_request
  | Run_oauth_flow
  | Browser_opened
  | Save_credentials credentials

text \<open>The state: the content of token.json (\<open>None\<close> when the file is absent) and the trace.\<close>

record oauth_state =
  token_file :: "string option"
  trace :: "oauth_event list"

definition emit :: "oauth_event \<Rightarrow> oauth_state \<Rightarrow> oauth_state" where
  "emit ev st = st\<lparr>trace := trace st @ [ev]\<rparr>"

text \<open>\<open>_run_oauth_flow\<close> (lines 68-89).\<close>

definition run_oauth_flow :: "oauth_env \<Rightarrow> oauth_state \<Rightarrow> credentials option \<times> oauth_state" where
  "run_oauth_flow env st =
     (let st1 = emit Run_oauth_flow st
      in if \<not> credentials_file_exists env then (None, st1)
         else if \<not> from_client_secrets_file_ok env then (None, st1)
         else (run_local_server env, emit Browser_opened st1))"

text \<open>\<open>_save_credentials\<close> (lines 91-98): every exception is caught and only reported.\<close>

definition save_credentials :: "oauth_env \<Rightarrow> credentials \<Rightarrow> oauth_state \<Rightarrow> oauth_state" where
  "save_credentials env creds st =
     (let st1 = emit (Save_credentials creds) st
      in case write_outcome env of
           Save_ok \<Rightarrow> st1\<lparr>token_file := Some (to_json env creds)\<rparr>
         | Open_raises \<Rightarrow> st1
         | Write_raises \<Rightarrow> st1\<lparr>token_file := Some []\<rparr>)"

text \<open>Lines 37-46: load the existing token if the file is there.\<close>

definition load_token :: "oauth_env \<Rightarrow> oauth_state \<Rightarrow> credentials option \<times> oauth_state" where
  "load_token env st =
     (case token_file st of
        None \<Rightarrow> (None, st)
      | Some txt \<Rightarrow> (from_authorized_user_file env txt, emit Token_file_read st))"

text \<open>Lines 50-56: refresh when there is an expired credential with a refresh token.\<close>

definition refresh_stage ::
  "oauth_env \<Rightarrow> credentials option \<Rightarrow> oauth_state \<Rightarrow> credentials option \<times> oauth_state" where
  "refresh_stage env creds st =
     (case creds of
        None \<Rightarrow> (None, st)
      | Some c \<Rightarrow>
          if expired c \<and> truthy (refresh_token c)
          then (refresh env c, emit Refresh_request st)
          else (Some c, st))"

text \<open>Lines 49-59: the block entered when there is no credential or it is not valid.\<close>

definition acquire ::
  "oauth_env \<Rightarrow> credentials option \<Rightarrow> oauth_state \<Rightarrow> credentials option \<times> oauth_state" where
  "acquire env creds st =
     (if (case creds of None \<Rightarrow> True | Some c \<Rightarrow> \<not> valid c)
      then (case refresh_stage env creds st of
              (None, st1) \<Rightarrow> run_oauth_flow env st1
            | (Some c, st1) \<Rightarrow> (Some c, st1))
      else (creds, st))"

text \<open>\<open>OAuthHelper.get_credentials\<close> (lines 35-66).\<close>

definition get_credentials :: "oauth_env \<Rightarrow> oauth_state \<Rightarrow> credentials option \<times> oauth_state" where
  "get_credentials env st =
     (case load_token env st of (creds0, st0) \<Rightarrow>
        (case acquire env creds0 st0 of
           (Some c, st1) \<Rightarrow> (Some c, save_credentials env c st1)
         | (None, st1) \<Rightarrow> (None, st1)))"

section \<open>The command loop (DB\_agent/agent.py, lines 117-143)\<close>

text \<open>
  Input lines are strings of 8-bit characters. \<open>str.strip()\<close> removes the characters for
  which \<open>str.isspace\<close> holds from both ends; below 256 these are the code points 9 to 13,
  28 to 32, 133 and 160. \<open>str.lower()\<close> maps A-Z and the capital letters of Latin-1 to
  their small forms.
\<close>

definition isspace :: "char \<Rightarrow> bool" where
  "isspace c = (let n = (of_char c :: nat)
                in (9 \<le> n \<and> n \<le> 13) \<or> (28 \<le> n \<and> n \<le> 32) \<or> n = 133 \<or> n = 160)"

definition strip :: "string \<Rightarrow> string" where
  "strip l = rev (dropWhile isspace (rev (dropWhile isspace l)))"

definition lower_char :: "char \<Rightarrow> char" where
  "lower_char c = (let n = (of_char c :: nat)
                   in if (65 \<le> n \<and> n \<le> 90) \<or> (192 \<le> n \<and> n \<le> 222 \<and> n \<noteq> 215)
                      then char_of (n + 32) else c)"

definition lower :: "string \<Rightarrow> string" where
  "lower l = map lower_char l"

text \<open>
  What one call of \<open>agent.run_sync\<close> can do: return a result, raise an exception, or be
  interrupted from the keyboard. The agent works on a world \<open>'w\<close> (the store and the
  hosted model), which it may change.
\<close>

datatype agent_outcome = Returns string | Raises string | Keyboard_interrupt

datatype cli_event =
    Prompt
  | Say_goodbye
  | Say_processing
  | Agent_run string
  | Say_reply string
  | Say_error string
  | Say_interrupted
  | Say_unexpected
  | Blank_line

definition after :: "cli_event list \<Rightarrow> (cli_event list \<times> 'w) option \<Rightarrow> (cli_event list \<times> 'w) option" where
  "after evs r = map_option (\<lambda>(t, w). (evs @ t, w)) r"

text \<open>
  The \<open>while True\<close> loop, on the lines that standard input still holds. When they are
  used up \<open>input()\<close> raises EOFError, which the outer handler catches, and the loop goes
  on: the loop need not end, so it runs on fuel, one unit per iteration, and \<open>None\<close> is
  a run that has not returned within the fuel. An interrupt from the keyboard while
  \<open>input()\<close> waits is not an \<open>Exception\<close> and leaves \<open>main\<close> altogether; the
  lines of the list are the ones that were entered.
\<close>

fun main_loop ::
  "nat \<Rightarrow> (string \<Rightarrow> 'w \<Rightarrow> agent_outcome \<times> 'w) \<Rightarrow> 'w \<Rightarrow> string list \<Rightarrow> (cli_event list \<times> 'w) option" where
  "main_loop 0 run w ls = None"
| "main_loop (Suc k) run w [] = after [Prompt, Say_unexpected, Blank_line] (main_loop k run w [])"
| "main_loop (Suc k) run w (l # ls) =
     (let user_input = strip l
      in if lower user_input \<in> set [''quit'', ''exit'', ''q'']
         then Some ([Prompt, Say_goodbye], w)
         else if user_input = [] then after [Prompt] (main_loop k run w ls)
         else (case run user_input w of
                 (Returns d, w') \<Rightarrow>
                   after [Prompt, Say_processing, Agent_run user_input, Say_reply d,
                          Blank_line, Blank_line] (main_loop k run w' ls)
               | (Raises e, w') \<Rightarrow>
                   after [Prompt, Say_processing, Agent_run user_input, Say_error e,
                          Blank_line, Blank_line] (main_loop k run w' ls)
               | (Keyboard_interrupt, w') \<Rightarrow>
                   Some ([Prompt, Say_processing, Agent_run user_input, Say_interrupted], w')))"

section \<open>Observations and sample states\<close>

text \<open>The events a call added to the trace.\<close>

definition emitted :: "oauth_state \<Rightarrow> oauth_state \<Rightarrow> oauth_event list" where
  "emitted st st' = drop (length (trace st)) (trace st')"

text \<open>A stretch of the trace in which \<open>_save_credentials\<close> is not called.\<close>

fun is_save :: "oauth_event \<Rightarrow> bool" where
  "is_save (Save_credentials c) = True"
| "is_save ev = False"

definition quiet :: "oauth_event list \<Rightarrow> bool" where
  "quiet evs = list_all (\<lambda>ev. \<not> is_save ev) evs"

text \<open>A store with two customers, the sequence at its third value.\<close>

definition scenario_store :: store where
  "scenario_store =
     \<lparr>rows = [\<lparr>cust_id = Some 1, email = ''a@x.com'', full_name = ''A'', bio = ''bio1'',
                created_at = Some 0\<rparr>,
               \<lparr>cust_id = Some 2, email = ''c@x.com'', full_name = ''C'', bio = ''bio3'',
                created_at = Some 4\<rparr>],
      id_seq = 3\<rparr>"

text \<open>
  A token file that parses to a valid credential, on a machine with no client-secret file
  and no network.
\<close>

definition saved_credential :: credentials where
  "saved_credential =
     \<lparr>token = ''ya29.a0'', refresh_token = Some ''1//0g'', expired = False, valid = True\<rparr>"

definition demo_env :: oauth_env where
  "demo_env =
     \<lparr>from_authorized_user_file =
        (\<lambda>txt. if txt = ''{saved}'' then Some saved_credential else None),
      refresh = (\<lambda>c. None),
      credentials_file_exists = False,
      from_client_secrets_file_ok = False,
      run_local_server = None,
      to_json = (\<lambda>c. ''{'' @ token c @ ''}''),
      write_outcome = Save_ok\<rparr>"

definition demo_state :: oauth_state where
  "demo_state = \<lparr>token_file = Some ''{saved}'', trace = []\<rparr>"

definition no_token_state :: oauth_state where
  "no_token_state = \<lparr>token_file = None, trace = []\<rparr>"

text \<open>The same machine with a token file that cannot be opened for writing.\<close>

definition readonly_env :: oauth_env where
  "readonly_env = demo_env\<lparr>write_outcome := Open_raises\<rparr>"

text \<open>An environment that names another host and user.\<close>

definition other_host_environ :: "(string \<times> string) list" where
  "other_host_environ =
     [(''POSTGRES_HOST'', ''db.example.com''), (''POSTGRES_USER'', ''alice''),
      (''POSTGRES_PORT'', ''6543''), (''POSTGRES_PASSWORD'', ''s3cret'')]"

text \<open>An agent that echoes the query and leaves the world alone.\<close>

definition echo_agent :: "string \<Rightarrow> unit \<Rightarrow> agent_outcome \<times> unit" where
  "echo_agent q w = (Returns q, w)"

section \<open>The store's invariant\<close>

lemma wf_empty_store: "wf_store empty_store"
  by (simp add: wf_store_def empty_store_def)

lemma wf_scenario_store: "wf_store scenario_store"
  by (simp add: wf_store_def scenario_store_def)

lemma wf_store_fresh_id:
  "wf_store s \<Longrightarrow> Some (id_seq s) \<notin> set (map cust_id (rows s))"
  by (auto simp: wf_store_def split: option.splits)

lemma insert_row_ok:
  assumes "wf_store s" and "e \<notin> set (map email (rows s))"
  shows "insert_row s now (e, n, b) =
           (Inr \<lparr>cust_id = Some (id_seq s), email = e, full_name = n, bio = b,
                 created_at = Some now\<rparr>,
            s\<lparr>id_seq := id_seq s + 1,
              rows := rows s @ [\<lparr>cust_id = Some (id_seq s), email = e, full_name = n, bio = b,
                                created_at = Some now\<rparr>]\<rparr>)"
  using wf_store_fresh_id [OF assms(1)] assms(2)
  by (simp add: insert_row_def Let_def)

lemma insert_row_wf:
  assumes "wf_store s"
  shows "wf_store (snd (insert_row s now v))"
proof -
  obtain e n b where v: "v = (e, n, b)" by (cases v) auto
  have fresh: "Some (id_seq s) \<notin> set (map cust_id (rows s))"
    by (rule wf_store_fresh_id [OF assms])
  show ?thesis
    using assms fresh unfolding v
    by (auto simp: insert_row_def Let_def wf_store_def split: option.splits)
qed

lemma create_customer_wf:
  assumes "wf_store s"
  shows "wf_store (snd (create_customer s now e n b))"
  using insert_row_wf [OF assms, of now "(e, n, b)"]
  by (auto simp: create_customer_def split: prod.splits sum.splits)

lemma update_rows_keys:
  "map (email \<circ> (\<lambda>r. if email r = e then set_name_bio n b r else r)) rs = map email rs"
  "map (cust_id \<circ> (\<lambda>r. if email r = e then set_name_bio n b r else r)) rs = map cust_id rs"
  by (induction rs) (auto simp: set_name_bio_def)

lemma update_customer_wf:
  assumes "wf_store s"
  shows "wf_store (snd (update_customer_by_email s e n b))"
  using assms
  by (auto simp: update_customer_by_email_def update_eq_email_def wf_store_def update_rows_keys
      set_name_bio_def split: option.splits)

lemma delete_customer_wf:
  assumes "wf_store s"
  shows "wf_store (snd (delete_customer_by_email s e))"
  using assms
  by (auto simp: delete_customer_by_email_def delete_eq_email_def wf_store_def distinct_map_filter
      split: option.splits)

lemma insert_row_id_seq: "id_seq (snd (insert_row s now v)) = id_seq s + 1"
  by (cases v) (simp add: insert_row_def Let_def)

lemma executemany_wf:
  "wf_store s \<Longrightarrow> wf_store (snd (executemany s now vs))"
proof (induction vs arbitrary: s)
  case Nil
  then show ?case by simp
next
  case (Cons v vs)
  obtain r s1 where i: "insert_row s now v = (r, s1)" by (cases "insert_row s now v") auto
  have w1: "wf_store s1" using insert_row_wf [OF Cons.prems, of now v] i by simp
  show ?case
  proof (cases r)
    case (Inl err)
    then show ?thesis using i w1 by simp
  next
    case (Inr row)
    then show ?thesis using i Cons.IH [OF w1] by simp
  qed
qed

lemma executemany_id_seq: "id_seq s \<le> id_seq (snd (executemany s now vs))"
proof (induction vs arbitrary: s)
  case Nil
  then show ?case by simp
next
  case (Cons v vs)
  obtain r s1 where i: "insert_row s now v = (r, s1)" by (cases "insert_row s now v") auto
  have m: "id_seq s1 = id_seq s + 1" using insert_row_id_seq [of s now v] i by simp
  show ?case
  proof (cases r)
    case (Inl err)
    then show ?thesis using i m by simp
  next
    case (Inr row)
    then show ?thesis using i m Cons.IH [of s1] by simp
  qed
qed

lemma wf_store_id_seq_mono:
  "wf_store s \<Longrightarrow> id_seq s \<le> k \<Longrightarrow> wf_store (s\<lparr>id_seq := k\<rparr>)"
  by (fastforce simp: wf_store_def split: option.splits)

lemma seed_database_wf:
  assumes "wf_store s"
  shows "wf_store (snd (seed_database accepts dotenv environ s now))"
proof -
  obtain r s1 where x: "executemany s now sample_customers = (r, s1)"
    by (cases "executemany s now sample_customers") auto
  have w1: "wf_store s1" using executemany_wf [OF assms, of now sample_customers] x by simp
  have m: "id_seq s \<le> id_seq s1" using executemany_id_seq [of s now sample_customers] x by simp
  show ?thesis
    using assms w1 wf_store_id_seq_mono [OF assms m] x
    by (auto simp: seed_database_def Let_def split: option.splits)
qed

section \<open>Properties of the tools\<close>

lemma filter_email_absent:
  "e \<notin> set (map email rs) \<Longrightarrow> filter (\<lambda>r. email r = e) rs = []"
  by (induction rs) auto

lemma filter_email_keep:
  "e \<notin> set (map email rs) \<Longrightarrow> filter (\<lambda>r. email r \<noteq> e) rs = rs"
  by (induction rs) auto

lemma map_email_absent:
  "e \<notin> set (map email rs) \<Longrightarrow> map (\<lambda>r. if email r = e then f r else r) rs = rs"
  by (induction rs) auto

text \<open>
  C1. In a store whose ids were all drawn from the sequence, for every email, name and
  biography with the email not yet in the table, \<open>create_customer\<close> followed by
  \<open>get_customer_by_email\<close> with the same email returns exactly one record; its name and
  biography are the given ones, and its id and creation time are not NULL.
\<close>

theorem create_then_get:
  assumes "wf_store s" and "e \<notin> set (map email (rows s))"
  shows "\<exists>r s'. create_customer s now e n b = (Inr [r], s') \<and>
                 get_customer_by_email s' e = (Inr [r], s') \<and>
                 full_name r = n \<and> bio r = b \<and>
                 cust_id r \<noteq> None \<and> created_at r \<noteq> None"
  using assms(2)
  by (simp add: create_customer_def insert_row_ok [OF assms] get_customer_by_email_def
      select_eq_email_def filter_email_absent)

theorem create_then_get_witness:
  "wf_store scenario_store \<and> ''b@x.com'' \<notin> set (map email (rows scenario_store)) \<and>
   (\<exists>r s'. create_customer scenario_store 5 ''b@x.com'' ''B'' ''bio'' = (Inr [r], s') \<and>
            get_customer_by_email s' ''b@x.com'' = (Inr [r], s') \<and>
            full_name r = ''B'' \<and> bio r = ''bio'' \<and>
            cust_id r \<noteq> None \<and> created_at r \<noteq> None)"
proof -
  have w: "wf_store scenario_store" by (rule wf_scenario_store)
  have a: "''b@x.com'' \<notin> set (map email (rows scenario_store))"
    by (simp add: scenario_store_def)
  show ?thesis using w a create_then_get [OF w a, of 5 "''B''" "''bio''"] by blast
qed

text \<open>
  C2. In every state in which a row with the given email exists, \<open>create_customer\<close> with
  that email fails with a uniqueness violation raised by the store, and the rows of the
  table, the one with that email among them, are the same after the failed attempt.
\<close>

theorem create_duplicate_email:
  assumes "e \<in> set (map email (rows s))"
  shows "\<exists>c s'. create_customer s now e n b = (Inl (Unique_violation c), s') \<and>
                 rows s' = rows s \<and>
                 select_eq_email s' e = select_eq_email s e"
  using assms
  by (auto simp: create_customer_def insert_row_def Let_def select_eq_email_def)

theorem create_duplicate_email_witness:
  "''a@x.com'' \<in> set (map email (rows scenario_store)) \<and>
   (\<exists>c s'. create_customer scenario_store 5 ''a@x.com'' ''Z'' ''other'' =
              (Inl (Unique_violation c), s') \<and>
            rows s' = rows scenario_store \<and>
            select_eq_email s' ''a@x.com'' = select_eq_email scenario_store ''a@x.com'')"
proof -
  have a: "''a@x.com'' \<in> set (map email (rows scenario_store))"
    by (simp add: scenario_store_def)
  show ?thesis using a create_duplicate_email [OF a, of 5 "''Z''" "''other''"] by blast
qed

text \<open>
  C3. For every email not present in the store, \<open>update_customer_by_email\<close> raises
  nothing, returns a response with no affected rows, and leaves the whole store as it was.
\<close>

theorem update_absent_email_noop:
  assumes "e \<notin> set (map email (rows s))"
  shows "update_customer_by_email s e n b = (Inr [], s)"
  using assms
  by (simp add: update_customer_by_email_def update_eq_email_def
      filter_email_absent map_email_absent)

theorem update_absent_email_noop_witness:
  "''nobody@x.com'' \<notin> set (map email (rows scenario_store)) \<and>
   update_customer_by_email scenario_store ''nobody@x.com'' ''N'' ''B'' =
     (Inr [], scenario_store)"
proof -
  have a: "''nobody@x.com'' \<notin> set (map email (rows scenario_store))"
    by (simp add: scenario_store_def)
  show ?thesis using a update_absent_email_noop [OF a, of "''N''" "''B''"] by simp
qed

text \<open>
  C4. For every email not present in the store, \<open>delete_customer_by_email\<close> raises
  nothing and leaves the whole store as it was.
\<close>

theorem delete_absent_email_noop:
  assumes "e \<notin> set (map email (rows s))"
  shows "delete_customer_by_email s e = (Inr [], s)"
  using assms
  by (simp add: delete_customer_by_email_def delete_eq_email_def
      filter_email_absent filter_email_keep)

theorem delete_absent_email_noop_witness:
  "''nobody@x.com'' \<notin> set (map email (rows scenario_store)) \<and>
   delete_customer_by_email scenario_store ''nobody@x.com'' = (Inr [], scenario_store)"
proof -
  have a: "''nobody@x.com'' \<notin> set (map email (rows scenario_store))"
    by (simp add: scenario_store_def)
  show ?thesis using a delete_absent_email_noop [OF a] by simp
qed

text \<open>
  C6. \<open>update_customer_by_email\<close> changes only the name and the biography of the rows with
  the given email: the table keeps its length and order and the sequence its value, every
  row keeps its email, id and creation time, and every row with another email is the same
  row as before.
\<close>

theorem update_frame:
  assumes "update_customer_by_email s e n b = (res, s')"
  shows "id_seq s' = id_seq s \<and> length (rows s') = length (rows s) \<and>
         (\<forall>i < length (rows s).
            email (rows s' ! i) = email (rows s ! i) \<and>
            cust_id (rows s' ! i) = cust_id (rows s ! i) \<and>
            created_at (rows s' ! i) = created_at (rows s ! i) \<and>
            (email (rows s ! i) \<noteq> e \<longrightarrow> rows s' ! i = rows s ! i) \<and>
            (email (rows s ! i) = e \<longrightarrow> full_name (rows s' ! i) = n \<and> bio (rows s' ! i) = b))"
  using assms
  by (auto simp: update_customer_by_email_def update_eq_email_def set_name_bio_def)

theorem update_frame_witness:
  "length (rows (snd (update_customer_by_email scenario_store ''a@x.com'' ''A2'' ''bio2''))) = 2 \<and>
   rows (snd (update_customer_by_email scenario_store ''a@x.com'' ''A2'' ''bio2'')) ! 0 =
     \<lparr>cust_id = Some 1, email = ''a@x.com'', full_name = ''A2'', bio = ''bio2'',
      created_at = Some 0\<rparr> \<and>
   rows (snd (update_customer_by_email scenario_store ''a@x.com'' ''A2'' ''bio2'')) ! 1 =
     rows scenario_store ! 1"
proof -
  let ?u = "update_customer_by_email scenario_store ''a@x.com'' ''A2'' ''bio2''"
  have u: "?u = (fst ?u, snd ?u)" by simp
  have l: "length (rows scenario_store) = 2" by (simp add: scenario_store_def)
  note f = update_frame [OF u]
  have len: "length (rows (snd ?u)) = 2" using f l by simp
  have r1: "rows (snd ?u) ! 1 = rows scenario_store ! 1"
  proof -
    have "email (rows scenario_store ! 1) \<noteq> ''a@x.com''" by (simp add: scenario_store_def)
    moreover have "(1::nat) < length (rows scenario_store)" using l by simp
    ultimately show ?thesis using f by blast
  qed
  have r0: "rows (snd ?u) ! 0 =
     \<lparr>cust_id = Some 1, email = ''a@x.com'', full_name = ''A2'', bio = ''bio2'',
      created_at = Some 0\<rparr>"
  proof -
    have e: "email (rows scenario_store ! 0) = ''a@x.com''" by (simp add: scenario_store_def)
    have z: "(0::nat) < length (rows scenario_store)" using l by simp
    from f z e have "email (rows (snd ?u) ! 0) = email (rows scenario_store ! 0) \<and>
          cust_id (rows (snd ?u) ! 0) = cust_id (rows scenario_store ! 0) \<and>
          created_at (rows (snd ?u) ! 0) = created_at (rows scenario_store ! 0) \<and>
          full_name (rows (snd ?u) ! 0) = ''A2'' \<and> bio (rows (snd ?u) ! 0) = ''bio2''"
      by blast
    then show ?thesis by (cases "rows (snd ?u) ! 0") (simp add: scenario_store_def)
  qed
  show ?thesis using len r0 r1 by blast
qed

section \<open>Seeding\<close>

lemma seed_empty:
  assumes "rows s = []"
  shows "executemany s now sample_customers =
          (None, \<lparr>rows = [\<lparr>cust_id = Some (id_seq s), email = ''johndoe@gmail.com'',
                           full_name = ''John Doe'', bio = ''I am a software engineer'',
                           created_at = Some now\<rparr>,
                          \<lparr>cust_id = Some (id_seq s + 1), email = ''janedoe@gmail.com'',
                           full_name = ''Jane Doe'', bio = ''I am a data scientist'',
                           created_at = Some now\<rparr>,
                          \<lparr>cust_id = Some (id_seq s + 2), email = ''jimdoe@gmail.com'',
                           full_name = ''Jim Doe'', bio = ''I am a product manager'',
                           created_at = Some now\<rparr>],
                  id_seq = id_seq s + 3\<rparr>)"
  using assms
  by (cases s) (simp add: sample_customers_def insert_row_def Let_def)

text \<open>
  C5. With a connection, \<open>seed_database\<close> is idempotent: on an empty table the first run
  reports success and leaves exactly the three sample rows, and a second run inserts nothing,
  reports success and leaves the same store; on any table with a row it changes nothing and
  reports success.
\<close>

theorem seed_database_idempotent:
  assumes "get_database_connection accepts dotenv environ \<noteq> None"
  shows "(rows s = [] \<longrightarrow>
            (\<exists>s1. seed_database accepts dotenv environ s t1 = (True, s1) \<and>
                   length (rows s1) = 3 \<and>
                   map (\<lambda>r. (email r, full_name r, bio r)) (rows s1) = sample_customers \<and>
                   seed_database accepts dotenv environ s1 t2 = (True, s1))) \<and>
         (rows s \<noteq> [] \<longrightarrow> seed_database accepts dotenv environ s t1 = (True, s))"
proof (intro conjI impI)
  assume e: "rows s = []"
  obtain conn where c: "get_database_connection accepts dotenv environ = Some conn"
    using assms by blast
  show "\<exists>s1. seed_database accepts dotenv environ s t1 = (True, s1) \<and>
                   length (rows s1) = 3 \<and>
                   map (\<lambda>r. (email r, full_name r, bio r)) (rows s1) = sample_customers \<and>
                   seed_database accepts dotenv environ s1 t2 = (True, s1)"
  proof -
    define s1 where "s1 = snd (executemany s t1 sample_customers)"
    have x: "executemany s t1 sample_customers = (None, s1)"
      by (simp add: s1_def seed_empty [OF e])
    have r: "rows s1 = rows (snd (executemany s t1 sample_customers))"
      by (simp add: s1_def)
    have r3: "length (rows s1) = 3"
      unfolding r by (simp add: seed_empty [OF e])
    have rm: "map (\<lambda>r. (email r, full_name r, bio r)) (rows s1) = sample_customers"
      unfolding r by (simp add: seed_empty [OF e]) (simp add: sample_customers_def)
    have first: "seed_database accepts dotenv environ s t1 = (True, s1)"
      by (simp add: seed_database_def c e x)
    have second: "seed_database accepts dotenv environ s1 t2 = (True, s1)"
      using r3 by (simp add: seed_database_def c)
    show ?thesis using first r3 rm second by blast
  qed
next
  assume ne: "rows s \<noteq> []"
  obtain conn where c: "get_database_connection accepts dotenv environ = Some conn"
    using assms by blast
  show "seed_database accepts dotenv environ s t1 = (True, s)"
    using ne by (simp add: seed_database_def c)
qed

theorem seed_database_idempotent_witness:
  "get_database_connection (\<lambda>kw. True) Map.empty Map.empty \<noteq> None \<and>
   rows empty_store = [] \<and>
   (\<exists>s1. seed_database (\<lambda>kw. True) Map.empty Map.empty empty_store 7 = (True, s1) \<and>
          length (rows s1) = 3 \<and>
          map (\<lambda>r. (email r, full_name r, bio r)) (rows s1) = sample_customers \<and>
          seed_database (\<lambda>kw. True) Map.empty Map.empty s1 9 = (True, s1)) \<and>
   rows scenario_store \<noteq> [] \<and>
   seed_database (\<lambda>kw. True) Map.empty Map.empty scenario_store 7 = (True, scenario_store)"
proof -
  have c: "get_database_connection (\<lambda>kw. True) Map.empty Map.empty \<noteq> None"
    by (simp add: get_database_connection_def)
  have e: "rows empty_store = []" by (simp add: empty_store_def)
  have n: "rows scenario_store \<noteq> []" by (simp add: scenario_store_def)
  show ?thesis
    using c e n seed_database_idempotent [OF c, of empty_store 7 9]
      seed_database_idempotent [OF c, of scenario_store 7 9]
    by blast
qed

section \<open>The connection's arguments\<close>

text \<open>
  C8, as stated, fails: with POSTGRES\_HOST and POSTGRES\_USER set in the environment, the
  host and the user the connection is opened with are values the environment does not hold.
\<close>

theorem connection_host_user_counterexample:
  "host (connect_kwargs (load_dotenv Map.empty (map_of other_host_environ)))
     \<notin> snd ` set other_host_environ \<and>
   user (connect_kwargs (load_dotenv Map.empty (map_of other_host_environ)))
     \<notin> snd ` set other_host_environ"
  by (simp add: connect_kwargs_def load_dotenv_def other_host_environ_def)

text \<open>
  C8, amended. \<open>get_database_connection\<close> connects to the fixed host \<open>localhost\<close> and
  database \<open>postgres\<close> as the fixed user \<open>postgres\<close>; only the port and the password
  come from the environment: POSTGRES\_PORT (the process environment first, then the .env
  file, then \<open>5432\<close>) and POSTGRES\_PASSWORD (the process environment first, then the .env
  file, absent when neither has it). It returns the connection when the server accepts these
  arguments and \<open>None\<close> otherwise.
\<close>

theorem connection_from_environment:
  "get_database_connection accepts dotenv environ =
     (let kw = \<lparr>host = ''localhost'',
                port = (case environ ''POSTGRES_PORT'' of
                          Some p \<Rightarrow> p
                        | None \<Rightarrow> (case dotenv ''POSTGRES_PORT'' of
                                     Some p \<Rightarrow> p
                                   | None \<Rightarrow> ''5432'')),
                database = ''postgres'',
                user = ''postgres'',
                password = (case environ ''POSTGRES_PASSWORD'' of
                              Some p \<Rightarrow> Some p
                            | None \<Rightarrow> dotenv ''POSTGRES_PASSWORD'')\<rparr>
      in if accepts kw then Some kw else None)"
  by (simp add: get_database_connection_def connect_kwargs_def load_dotenv_def map_add_def
      split: option.splits)

section \<open>The OAuth helper\<close>

lemma token_file_emit: "token_file (emit ev st) = token_file st"
  by (simp add: emit_def)

lemma trace_emit: "trace (emit ev st) = trace st @ [ev]"
  by (simp add: emit_def)

lemma trace_save_credentials:
  "trace (save_credentials env c st) = trace st @ [Save_credentials c]"
  by (simp add: save_credentials_def emit_def Let_def split: save_outcome.splits)

lemma token_file_save_credentials:
  "token_file (save_credentials env c st) =
     (case write_outcome env of
        Save_ok \<Rightarrow> Some (to_json env c)
      | Open_raises \<Rightarrow> token_file st
      | Write_raises \<Rightarrow> Some [])"
  by (simp add: save_credentials_def emit_def Let_def split: save_outcome.splits)

lemma run_oauth_flow_frame:
  assumes "run_oauth_flow env st = (r, st')"
  shows "token_file st' = token_file st \<and>
         (\<exists>evs. trace st' = trace st @ evs \<and> quiet evs \<and> Run_oauth_flow \<in> set evs)"
  using assms
  by (auto simp: run_oauth_flow_def Let_def token_file_emit trace_emit quiet_def split: if_splits)

lemma run_oauth_flow_None:
  assumes "run_oauth_flow env st = (None, st')"
  shows "\<not> credentials_file_exists env \<or> \<not> from_client_secrets_file_ok env \<or>
         run_local_server env = None"
  using assms
  by (auto simp: run_oauth_flow_def Let_def split: if_splits)

lemma refresh_stage_frame:
  assumes "refresh_stage env creds st = (r, st')"
  shows "token_file st' = token_file st \<and> (\<exists>evs. trace st' = trace st @ evs \<and> quiet evs)"
  using assms
  by (auto simp: refresh_stage_def token_file_emit trace_emit quiet_def
      split: option.splits if_splits)

lemma refresh_stage_None:
  assumes "refresh_stage env creds st = (None, st')"
  shows "creds = None \<or>
         (\<exists>c. creds = Some c \<and> expired c \<and> truthy (refresh_token c) \<and> refresh env c = None)"
  using assms
  by (auto simp: refresh_stage_def split: option.splits if_splits)

lemma load_token_frame:
  assumes "load_token env st = (r, st')"
  shows "token_file st' = token_file st \<and> (\<exists>evs. trace st' = trace st @ evs \<and> quiet evs)"
  using assms
  by (auto simp: load_token_def token_file_emit trace_emit quiet_def split: option.splits)

lemma quiet_append: "quiet xs \<Longrightarrow> quiet ys \<Longrightarrow> quiet (xs @ ys)"
  by (simp add: quiet_def)

lemma quiet_no_save: "quiet evs \<Longrightarrow> Save_credentials c \<notin> set evs"
  by (auto simp: quiet_def list_all_iff)

lemma acquire_frame:
  assumes "acquire env creds st = (r, st')"
  shows "token_file st' = token_file st \<and>
         (\<exists>evs. trace st' = trace st @ evs \<and> quiet evs \<and>
                (r = None \<longrightarrow> Run_oauth_flow \<in> set evs))"
proof (cases "case creds of None \<Rightarrow> True | Some c \<Rightarrow> \<not> valid c")
  case False
  then have "st' = st" and "r \<noteq> None"
    using assms by (auto simp: acquire_def split: option.splits)
  then show ?thesis by (simp add: quiet_def)
next
  case True
  obtain r1 st1 where rs: "refresh_stage env creds st = (r1, st1)"
    by (cases "refresh_stage env creds st") auto
  from refresh_stage_frame [OF rs] obtain e1
    where f1: "token_file st1 = token_file st" "trace st1 = trace st @ e1" "quiet e1"
    by blast
  show ?thesis
  proof (cases r1)
    case None
    then have "run_oauth_flow env st1 = (r, st')"
      using assms True rs by (simp add: acquire_def)
    from run_oauth_flow_frame [OF this] obtain e2
      where f2: "token_file st' = token_file st1" "trace st' = trace st1 @ e2" "quiet e2"
        "Run_oauth_flow \<in> set e2"
      by blast
    have "trace st' = trace st @ (e1 @ e2)" using f1 f2 by simp
    moreover have "quiet (e1 @ e2)" using f1 f2 by (simp add: quiet_append)
    moreover have "Run_oauth_flow \<in> set (e1 @ e2)" using f2 by simp
    moreover have "token_file st' = token_file st" using f1 f2 by simp
    ultimately show ?thesis by blast
  next
    case (Some c)
    then have "st' = st1" and "r \<noteq> None" using assms True rs by (auto simp: acquire_def)
    with f1 show ?thesis by blast
  qed
qed

lemma acquire_None:
  assumes "acquire env creds st = (None, st')"
  shows "(\<not> credentials_file_exists env \<or> \<not> from_client_secrets_file_ok env \<or>
          run_local_server env = None) \<and>
         (creds = None \<or>
          (\<exists>c. creds = Some c \<and> \<not> valid c \<and> expired c \<and> truthy (refresh_token c) \<and>
               refresh env c = None))"
proof (cases "case creds of None \<Rightarrow> True | Some c \<Rightarrow> \<not> valid c")
  case False
  then show ?thesis using assms by (auto simp: acquire_def split: option.splits)
next
  case True
  obtain r1 st1 where rs: "refresh_stage env creds st = (r1, st1)"
    by (cases "refresh_stage env creds st") auto
  show ?thesis
  proof (cases r1)
    case None
    then have fl: "run_oauth_flow env st1 = (None, st')"
      using assms True rs by (simp add: acquire_def)
    from refresh_stage_None [OF rs [unfolded None]] True
    have a: "creds = None \<or>
          (\<exists>c. creds = Some c \<and> \<not> valid c \<and> expired c \<and> truthy (refresh_token c) \<and>
               refresh env c = None)"
      by auto
    with a run_oauth_flow_None [OF fl] show ?thesis by blast
  next
    case (Some c)
    then show ?thesis using assms True rs by (simp add: acquire_def)
  qed
qed

text \<open>
  C7. When the token file exists and loads as a valid credential, \<open>get_credentials\<close>
  returns that credential, and all it does is read the token file and call
  \<open>_save_credentials\<close>: it does not call \<open>_run_oauth_flow\<close>, sends no refresh request
  and opens no browser.
\<close>

theorem valid_token_no_flow:
  assumes "token_file st = Some txt"
      and "from_authorized_user_file env txt = Some c"
      and "valid c"
  shows "fst (get_credentials env st) = Some c \<and>
         emitted st (snd (get_credentials env st)) = [Token_file_read, Save_credentials c] \<and>
         Run_oauth_flow \<notin> set (emitted st (snd (get_credentials env st))) \<and>
         Refresh_request \<notin> set (emitted st (snd (get_credentials env st))) \<and>
         Browser_opened \<notin> set (emitted st (snd (get_credentials env st)))"
proof -
  have g: "get_credentials env st = (Some c, save_credentials env c (emit Token_file_read st))"
    using assms by (simp add: get_credentials_def load_token_def acquire_def)
  have e: "emitted st (snd (get_credentials env st)) = [Token_file_read, Save_credentials c]"
    by (simp add: g emitted_def trace_save_credentials trace_emit)
  show ?thesis unfolding e by (simp add: g)
qed

theorem valid_token_no_flow_witness:
  "token_file demo_state = Some ''{saved}'' \<and>
   from_authorized_user_file demo_env ''{saved}'' = Some saved_credential \<and>
   valid saved_credential \<and>
   fst (get_credentials demo_env demo_state) = Some saved_credential \<and>
   emitted demo_state (snd (get_credentials demo_env demo_state)) =
     [Token_file_read, Save_credentials saved_credential] \<and>
   Run_oauth_flow \<notin> set (emitted demo_state (snd (get_credentials demo_env demo_state))) \<and>
   Refresh_request \<notin> set (emitted demo_state (snd (get_credentials demo_env demo_state))) \<and>
   Browser_opened \<notin> set (emitted demo_state (snd (get_credentials demo_env demo_state)))"
proof -
  have a: "token_file demo_state = Some ''{saved}''" by (simp add: demo_state_def)
  have b: "from_authorized_user_file demo_env ''{saved}'' = Some saved_credential"
    by (simp add: demo_env_def)
  have c: "valid saved_credential" by (simp add: saved_credential_def)
  show ?thesis using a b c valid_token_no_flow [OF a b c] by simp
qed

text \<open>
  C10, as stated, fails: where the token file cannot be opened for writing, the call
  returns the credential loaded from the file, and the file is as it was, which is not the
  serialised credential.
\<close>

theorem save_write_counterexample:
  "fst (get_credentials readonly_env demo_state) = Some saved_credential \<and>
   token_file (snd (get_credentials readonly_env demo_state)) = token_file demo_state \<and>
   token_file demo_state \<noteq> Some (to_json readonly_env saved_credential)"
  by (simp add: get_credentials_def load_token_def acquire_def save_credentials_def emit_def
      readonly_env_def demo_env_def demo_state_def saved_credential_def Let_def)

text \<open>
  C10, amended. Whenever \<open>get_credentials\<close> returns a credential, the last thing it did
  was to call \<open>_save_credentials\<close> on it, once: the token file then holds the serialised
  credential when the write succeeds, is untouched when opening it raises, and is empty
  when the write raises after the file was opened. It returns null, without calling
  \<open>_save_credentials\<close> and with the token file untouched, only after \<open>_run_oauth_flow\<close>
  was called and failed, the token having failed to load (no file, or a file that does not
  parse) or to refresh.
\<close>

theorem get_credentials_saves:
  assumes "get_credentials env st = (r, st')"
  shows "(\<forall>c. r = Some c \<longrightarrow>
            (\<exists>evs. emitted st st' = evs @ [Save_credentials c] \<and> quiet evs) \<and>
            token_file st' = (case write_outcome env of
                                Save_ok \<Rightarrow> Some (to_json env c)
                              | Open_raises \<Rightarrow> token_file st
                              | Write_raises \<Rightarrow> Some [])) \<and>
         (r = None \<longrightarrow>
            quiet (emitted st st') \<and> token_file st' = token_file st \<and>
            Run_oauth_flow \<in> set (emitted st st') \<and>
            (\<not> credentials_file_exists env \<or> \<not> from_client_secrets_file_ok env \<or>
             run_local_server env = None) \<and>
            (fst (load_token env st) = None \<or>
             (\<exists>c. fst (load_token env st) = Some c \<and> \<not> valid c \<and> expired c \<and>
                  truthy (refresh_token c) \<and> refresh env c = None)))"
proof -
  obtain c0 st0 where l: "load_token env st = (c0, st0)"
    by (cases "load_token env st") auto
  obtain c1 st1 where a: "acquire env c0 st0 = (c1, st1)"
    by (cases "acquire env c0 st0") auto
  from load_token_frame [OF l] obtain e0
    where f0: "token_file st0 = token_file st" "trace st0 = trace st @ e0" "quiet e0"
    by blast
  from acquire_frame [OF a] obtain e1
    where f1: "token_file st1 = token_file st0" "trace st1 = trace st0 @ e1" "quiet e1"
      "c1 = None \<longrightarrow> Run_oauth_flow \<in> set e1"
    by blast
  have q: "quiet (e0 @ e1)" using f0 f1 by (simp add: quiet_append)
  have t1: "trace st1 = trace st @ (e0 @ e1)" using f0 f1 by simp
  have c0: "c0 = fst (load_token env st)" by (simp add: l)
  show ?thesis
  proof (cases c1)
    case None
    then have r: "r = None" "st' = st1"
      using assms l a by (simp_all add: get_credentials_def)
    have em: "emitted st st' = e0 @ e1" by (simp add: emitted_def r t1)
    have fl: "Run_oauth_flow \<in> set (emitted st st')" using f1(4) None by (simp add: em)
    have tf: "token_file st' = token_file st" using f0 f1 r by simp
    have qe: "quiet (emitted st st')" using q by (simp add: em)
    note an = acquire_None [OF a [unfolded None], unfolded c0]
    show ?thesis using r fl tf qe an by simp
  next
    case (Some c)
    then have r: "r = Some c" "st' = save_credentials env c st1"
      using assms l a by (simp_all add: get_credentials_def)
    have em: "emitted st st' = (e0 @ e1) @ [Save_credentials c]"
      by (simp add: emitted_def r trace_save_credentials t1)
    have tf: "token_file st' = (case write_outcome env of
                                Save_ok \<Rightarrow> Some (to_json env c)
                              | Open_raises \<Rightarrow> token_file st
                              | Write_raises \<Rightarrow> Some [])"
      by (simp add: r token_file_save_credentials f0 f1 split: save_outcome.splits)
    show ?thesis using r em q tf by blast
  qed
qed

theorem get_credentials_saves_witness:
  "get_credentials demo_env demo_state =
     (Some saved_credential, snd (get_credentials demo_env demo_state)) \<and>
   (\<exists>evs. emitted demo_state (snd (get_credentials demo_env demo_state)) =
            evs @ [Save_credentials saved_credential] \<and> quiet evs) \<and>
   token_file (snd (get_credentials demo_env demo_state)) = Some ''{ya29.a0}'' \<and>
   get_credentials demo_env no_token_state =
     (None, snd (get_credentials demo_env no_token_state)) \<and>
   quiet (emitted no_token_state (snd (get_credentials demo_env no_token_state))) \<and>
   token_file (snd (get_credentials demo_env no_token_state)) = token_file no_token_state \<and>
   Run_oauth_flow \<in> set (emitted no_token_state (snd (get_credentials demo_env no_token_state)))"
proof -
  have g1: "get_credentials demo_env demo_state =
     (Some saved_credential, snd (get_credentials demo_env demo_state))"
    by (simp add: get_credentials_def load_token_def acquire_def demo_env_def demo_state_def
        saved_credential_def)
  have g2: "get_credentials demo_env no_token_state =
     (None, snd (get_credentials demo_env no_token_state))"
    by (simp add: get_credentials_def load_token_def acquire_def refresh_stage_def
        run_oauth_flow_def demo_env_def no_token_state_def Let_def)
  have w: "write_outcome demo_env = Save_ok" "to_json demo_env saved_credential = ''{ya29.a0}''"
    by (simp_all add: demo_env_def saved_credential_def)
  show ?thesis
    using get_credentials_saves [OF g1] get_credentials_saves [OF g2] g1 g2 w
    by simp
qed

section \<open>The command loop\<close>

lemma strip_empty_iff: "strip l = [] \<longleftrightarrow> (\<forall>c \<in> set l. isspace c)"
proof
  assume "strip l = []"
  then have "dropWhile isspace (rev (dropWhile isspace l)) = []" by (simp add: strip_def)
  then have "\<forall>c \<in> set (dropWhile isspace l). isspace c"
    by (simp add: dropWhile_eq_Nil_conv)
  then have "dropWhile isspace l = []"
    by (metis dropWhile_eq_Nil_conv hd_dropWhile list.set_sel(1))
  then show "\<forall>c \<in> set l. isspace c" by (simp add: dropWhile_eq_Nil_conv)
next
  assume "\<forall>c \<in> set l. isspace c"
  then have d: "dropWhile isspace l = []" by (simp add: dropWhile_eq_Nil_conv)
  show "strip l = []" unfolding strip_def d by simp
qed

text \<open>
  Over a whole run that returns: an exit word ends the loop at once, and every query the
  agent was run on is a stripped input line that is not empty.
\<close>

lemma quit_ends_loop:
  "lower (strip l) \<in> set [''quit'', ''exit'', ''q''] \<Longrightarrow>
   main_loop (Suc k) run w (l # ls) = Some ([Prompt, Say_goodbye], w)"
  by simp

lemma agent_run_nonblank:
  "main_loop k run w ls = Some (t, w') \<Longrightarrow> Agent_run q \<in> set t \<Longrightarrow>
   q \<noteq> [] \<and> q \<in> strip ` set ls"
proof (induction k run w ls arbitrary: t w' rule: main_loop.induct)
  case (1 run w ls)
  then show ?case by simp
next
  case (2 k run w)
  then show ?case by (auto simp: after_def)
next
  case (3 k run w l ls)
  show ?case
  proof (cases "lower (strip l) \<in> set [''quit'', ''exit'', ''q'']")
    case True
    then show ?thesis using "3.prems" by auto
  next
    case nq: False
    show ?thesis
    proof (cases "strip l = []")
      case True
      then obtain t1 where "main_loop k run w ls = Some (t1, w')" "t = Prompt # t1"
        using "3.prems"(1) nq by (auto simp: after_def)
      then show ?thesis using "3.IH"(1) [OF refl nq True] "3.prems"(2) by auto
    next
      case ne: False
      obtain o1 w1 where r: "run (strip l) w = (o1, w1)" by (cases "run (strip l) w") auto
      show ?thesis
      proof (cases o1)
        case (Returns d)
        then obtain t1 where m: "main_loop k run w1 ls = Some (t1, w')"
            and t: "t = [Prompt, Say_processing, Agent_run (strip l), Say_reply d,
                          Blank_line, Blank_line] @ t1"
          using "3.prems"(1) nq ne r by (auto simp: after_def)
        show ?thesis
        proof (cases "Agent_run q \<in> set t1")
          case True
          then show ?thesis
            using "3.IH"(2) [OF refl nq ne r [symmetric] Returns m] by auto
        next
          case False
          then have "q = strip l" using t "3.prems"(2) by auto
          then show ?thesis using ne by simp
        qed
      next
        case (Raises e)
        then obtain t1 where m: "main_loop k run w1 ls = Some (t1, w')"
            and t: "t = [Prompt, Say_processing, Agent_run (strip l), Say_error e,
                          Blank_line, Blank_line] @ t1"
          using "3.prems"(1) nq ne r by (auto simp: after_def)
        show ?thesis
        proof (cases "Agent_run q \<in> set t1")
          case True
          then show ?thesis
            using "3.IH"(3) [OF refl nq ne r [symmetric] Raises m] by auto
        next
          case False
          then have "q = strip l" using t "3.prems"(2) by auto
          then show ?thesis using ne by simp
        qed
      next
        case Keyboard_interrupt
        then have "t = [Prompt, Say_processing, Agent_run (strip l), Say_interrupted]"
          using "3.prems"(1) nq ne r by auto
        then have "q = strip l" using "3.prems"(2) by auto
        then show ?thesis using ne by simp
      qed
    qed
  qed
qed

text \<open>
  C9. In the command loop, an input line that is empty once stripped (an empty line, or
  one of whitespace only) makes the iteration do nothing but prompt: the agent is not run,
  the world is the same, and the loop goes on with the next line.
\<close>

theorem blank_input_skipped:
  assumes "strip l = []"
  shows "main_loop (Suc k) run w (l # ls) = after [Prompt] (main_loop k run w ls)"
  using assms by (simp add: lower_def)

theorem blank_input_skipped_witness:
  "strip ''   '' = [] \<and>
   main_loop (Suc (Suc 0)) echo_agent () [''   '', ''quit''] =
     Some ([Prompt, Prompt, Say_goodbye], ())"
proof -
  have s: "strip ''   '' = []" by (simp add: strip_def isspace_def)
  have q: "strip ''quit'' = ''quit''" by (simp add: strip_def isspace_def)
  have l: "lower ''quit'' = ''quit''" by (simp add: lower_def lower_char_def)
  show ?thesis
    using s blank_input_skipped [OF s, of "Suc 0" echo_agent "()" "[''quit'']"]
    by (simp add: after_def q l)
qed

end
